theory Spec2Isabelle
  imports Main "HOL-Library.Sublist"
begin

section \<open>Text values\<close>

text \<open>
  A Python \<open>str\<close> is a sequence of Unicode code points; the tool handles Portuguese,
  Chinese and typographic punctuation, so a string is modelled as the list of its code
  points (natural numbers), not as a list of 8-bit characters.
\<close>

type_synonym ustring = "nat list"

text \<open>
  The values that reach \<open>normalize\<close>: a cell of a spreadsheet read by pandas is a string,
  a number, a boolean or the missing-value marker NaN (a float); the function itself also
  tests for Python's \<open>None\<close>.
\<close>

datatype pyval = PyNone | PyNaN | PyStr ustring | PyInt int | PyBool bool

function digits :: "nat \<Rightarrow> ustring" where
  "digits n = (if n < 10 then [48 + n] else digits (n div 10) @ [48 + n mod 10])"
  by pat_completeness auto
termination
  by (relation "measure id") auto

declare digits.simps [simp del]

text \<open>\<open>str(v)\<close> for the values above.\<close>

fun py_str :: "pyval \<Rightarrow> ustring" where
  "py_str PyNone = [78, 111, 110, 101]"
| "py_str PyNaN = [110, 97, 110]"
| "py_str (PyStr s) = s"
| "py_str (PyInt i) = (if i < 0 then 45 # digits (nat (- i)) else digits (nat i))"
| "py_str (PyBool b) = (if b then [84, 114, 117, 101] else [70, 97, 108, 115, 101])"

section \<open>The steps of normalize\<close>

text \<open>
  The characters that \<open>\s\<close> matches in a \<open>str\<close> pattern and that \<open>str.strip()\<close> removes:
  the code points for which \<open>str.isspace\<close> holds.
\<close>

definition is_space :: "nat \<Rightarrow> bool" where
  "is_space c \<longleftrightarrow>
     (9 \<le> c \<and> c \<le> 13) \<or> (28 \<le> c \<and> c \<le> 32) \<or> c = 133 \<or> c = 160 \<or> c = 5760 \<or>
     (8192 \<le> c \<and> c \<le> 8202) \<or> c = 8232 \<or> c = 8233 \<or> c = 8239 \<or> c = 8287 \<or> c = 12288"

text \<open>\<open>re.sub(r"\s+", " ", text)\<close>: every maximal run of whitespace becomes one space.\<close>

function collapse_ws :: "ustring \<Rightarrow> ustring" where
  "collapse_ws [] = []"
| "collapse_ws (c # cs) =
     (if is_space c then 32 # collapse_ws (dropWhile is_space cs) else c # collapse_ws cs)"
  by pat_completeness auto
termination
  by (relation "measure length") (auto simp: length_dropWhile_le less_Suc_eq_le)

text \<open>
  \<open>s.strip(chars)\<close> removes from both ends every character that belongs to \<open>chars\<close>
  (all of them, not one); \<open>s.strip()\<close> does so for whitespace.
\<close>

definition strip_where :: "(nat \<Rightarrow> bool) \<Rightarrow> ustring \<Rightarrow> ustring" where
  "strip_where P s = rev (dropWhile P (rev (dropWhile P s)))"

definition strip_ws :: "ustring \<Rightarrow> ustring" where
  "strip_ws = strip_where is_space"

definition strip_chars :: "ustring \<Rightarrow> ustring \<Rightarrow> ustring" where
  "strip_chars chars = strip_where (\<lambda>c. c \<in> set chars)"

text \<open>Line 32: \<open>text.strip().strip('"').strip("'")\<close>.\<close>

definition strip_step :: "ustring \<Rightarrow> ustring" where
  "strip_step text = strip_chars [39] (strip_chars [34] (strip_ws text))"

text \<open>
  \<open>s.replace(old, new)\<close>: the occurrences of \<open>old\<close> are found from the left and do not
  overlap. For an empty \<open>old\<close> Python inserts \<open>new\<close> before every character and at the end.
\<close>

function replace_nonempty :: "'a list \<Rightarrow> 'a list \<Rightarrow> 'a list \<Rightarrow> 'a list" where
  "replace_nonempty old new [] = []"
| "replace_nonempty old new (c # cs) =
     (if old \<noteq> [] \<and> prefix old (c # cs)
      then new @ replace_nonempty old new (drop (length old) (c # cs))
      else c # replace_nonempty old new cs)"
  by pat_completeness auto
termination
  by (relation "measure (\<lambda>(old, new, s). length s)") auto

definition replace :: "'a list \<Rightarrow> 'a list \<Rightarrow> 'a list \<Rightarrow> 'a list" where
  "replace old new s =
     (if old = [] then new @ concat (map (\<lambda>c. c # new) s) else replace_nonempty old new s)"

text \<open>Line 33: the three replacements around the slash, in the order of the source.\<close>

definition slash_step :: "ustring \<Rightarrow> ustring" where
  "slash_step text =
     replace [47, 32] [47] (replace [32, 47] [47] (replace [32, 47, 32] [47] text))"

text \<open>Lines 34-35: en dash, em dash and minus sign each become the ASCII hyphen.\<close>

definition dash_step :: "ustring \<Rightarrow> ustring" where
  "dash_step text = foldl (\<lambda>t ch. replace [ch] [45] t) text [8211, 8212, 8722]"

text \<open>
  \<open>unidecode\<close> belongs to the Unidecode package, not to this program. Its code copies
  every code point below 128 unchanged and looks every other one up in the package's
  tables, dropping those without an entry. The tables are a parameter \<open>tbl\<close> here: the
  replacement text of a non-ASCII code point (empty when there is none).
\<close>

definition unidecode :: "(nat \<Rightarrow> ustring) \<Rightarrow> ustring \<Rightarrow> ustring" where
  "unidecode tbl s = concat (map (\<lambda>c. if c < 128 then [c] else tbl c) s)"

text \<open>The contract of the tables: every replacement text is ASCII.\<close>

definition ascii_table :: "(nat \<Rightarrow> ustring) \<Rightarrow> bool" where
  "ascii_table tbl \<longleftrightarrow> (\<forall>c. list_all (\<lambda>d. d < 128) (tbl c))"

text \<open>
  \<open>str.lower\<close> on the ASCII range, which is where the program applies it once
  \<open>unidecode\<close> has run: the letters A-Z move to a-z, everything else stays.
\<close>

definition lower_char :: "nat \<Rightarrow> nat" where
  "lower_char c = (if 65 \<le> c \<and> c \<le> 90 then c + 32 else c)"

definition lower :: "ustring \<Rightarrow> ustring" where
  "lower = map lower_char"

section \<open>normalize\<close>

fun normalize :: "(nat \<Rightarrow> ustring) \<Rightarrow> pyval \<Rightarrow> ustring" where
  "normalize tbl PyNone = []"
| "normalize tbl v =
     lower (unidecode tbl (dash_step (slash_step (strip_step (collapse_ws (py_str v))))))"

text \<open>
  A few entries of the Unidecode tables, used to run the program on concrete non-ASCII
  text: i with acute accent, the four curly quotes, the en dash, and the two Chinese
  characters of the package's own documentation (U+5317, U+4EB0), whose replacement
  texts end in a space.
\<close>

definition sample_tbl :: "nat \<Rightarrow> ustring" where
  "sample_tbl c =
     (if c = 237 then [105]
      else if c = 8220 \<or> c = 8221 then [34]
      else if c = 8216 \<or> c = 8217 then [39]
      else if c = 8211 then [45]
      else if c = 21271 then [66, 101, 105, 32]
      else if c = 20144 then [74, 105, 110, 103, 32]
      else [])"

section \<open>Series.str.contains\<close>

text \<open>
  \<open>Series.str.contains(pat, na=False)\<close> is called without \<open>regex=False\<close>, so pandas
  compiles \<open>pat\<close> with Python's \<open>re\<close> and keeps the rows where \<open>re.search\<close> finds a match.
  Neither pandas nor \<open>re\<close> is part of this program; the model below covers the fragment
  of the pattern language made of literal characters, the dot, groups, alternation, the
  three postfix operators and escaped punctuation. What \<open>re\<close> does with any other pattern
  (character classes, braces, anchors, backslash followed by a letter or digit, group
  extensions \<open>(?...)\<close>, a postfix operator stacked on another) is not written out here
  but taken as a parameter \<open>rx\<close>: for such a pattern, \<open>rx\<close> gives either the exception
  that \<open>re.compile\<close> raises or the search predicate of the compiled pattern.
\<close>

text \<open>
  The exceptions that leave the functions modelled here: \<open>re.error\<close> and \<open>OverflowError\<close>
  (a repetition count too large) from \<open>re.compile\<close>, and the exception by which
  \<open>st.stop()\<close> ends the script.
\<close>

datatype py_error = ReError | OverflowError | StopScript

type_synonym matcher = "ustring \<Rightarrow> bool"

type_synonym re_engine = "ustring \<Rightarrow> py_error + matcher"

datatype regex = Empty | Eps | Lit nat | Dot | Seq regex regex | Alt regex regex | Star regex

fun seq_of :: "regex list \<Rightarrow> regex" where
  "seq_of [] = Eps"
| "seq_of (r # rs) = Seq r (seq_of rs)"

fun alt_of :: "regex list \<Rightarrow> regex" where
  "alt_of [] = Empty"
| "alt_of [r] = r"
| "alt_of (r # rs) = Alt r (alt_of rs)"

text \<open>
  One level of the parser: the alternatives already closed by a bar, the items of the
  current alternative, and whether the last item already carries a postfix operator.
\<close>

datatype frame = Frame (alts: "regex list") (cur: "regex list") (rep: bool)

definition close_frame :: "frame \<Rightarrow> regex" where
  "close_frame f = alt_of (alts f @ [seq_of (cur f)])"

definition push_atom :: "frame \<Rightarrow> regex \<Rightarrow> frame" where
  "push_atom f r = Frame (alts f) (cur f @ [r]) False"

definition quantify :: "nat \<Rightarrow> frame \<Rightarrow> frame" where
  "quantify c f =
     (let x = last (cur f);
          y = (if c = 42 then Star x else if c = 43 then Seq x (Star x) else Alt x Eps)
      in Frame (alts f) (butlast (cur f) @ [y]) True)"

definition is_alnum :: "nat \<Rightarrow> bool" where
  "is_alnum c \<longleftrightarrow> (48 \<le> c \<and> c \<le> 57) \<or> (65 \<le> c \<and> c \<le> 90) \<or> (97 \<le> c \<and> c \<le> 122)"

text \<open>
  Reading a pattern ends in one of three ways: the pattern lies in the fragment and is
  this expression; it is malformed, and \<open>re.compile\<close> raises \<open>re.error\<close>; or it uses
  something beyond the fragment.
\<close>

datatype parsed = Parsed regex | Malformed | Beyond

text \<open>
  The pattern is read from the left; \<open>st\<close> holds the frames of the groups still open.
  \<open>re.error\<close> is raised for a closing parenthesis without an opening one, a group left
  open at the end, a postfix operator with nothing before it, and a backslash at the end.
\<close>

fun parse :: "ustring \<Rightarrow> frame \<Rightarrow> frame list \<Rightarrow> parsed" where
  "parse [] f [] = Parsed (close_frame f)"
| "parse [] f (g # st) = Malformed"
| "parse (c # cs) f st =
     (if c = 40 then
        (case cs of
           [] \<Rightarrow> Malformed
         | d # ds \<Rightarrow> if d = 63 then Beyond else parse cs (Frame [] [] False) (f # st))
      else if c = 41 then
        (case st of
           [] \<Rightarrow> Malformed
         | g # st' \<Rightarrow> parse cs (push_atom g (close_frame f)) st')
      else if c = 124 then parse cs (Frame (alts f @ [seq_of (cur f)]) [] False) st
      else if c = 42 \<or> c = 43 \<or> c = 63 then
        (if cur f = [] then Malformed
         else if rep f then Beyond
         else parse cs (quantify c f) st)
      else if c = 92 then
        (case cs of
           [] \<Rightarrow> Malformed
         | d # ds \<Rightarrow> if is_alnum d then Beyond else parse ds (push_atom f (Lit d)) st)
      else if c = 91 \<or> c = 123 \<or> c = 94 \<or> c = 36 then Beyond
      else parse cs (push_atom f (if c = 46 then Dot else Lit c)) st)"

fun nullable :: "regex \<Rightarrow> bool" where
  "nullable Empty = False"
| "nullable Eps = True"
| "nullable (Lit a) = False"
| "nullable Dot = False"
| "nullable (Seq r s) = (nullable r \<and> nullable s)"
| "nullable (Alt r s) = (nullable r \<or> nullable s)"
| "nullable (Star r) = True"

text \<open>What is left of \<open>r\<close> once the character \<open>c\<close> is read; the dot takes anything but a newline.\<close>

fun deriv :: "nat \<Rightarrow> regex \<Rightarrow> regex" where
  "deriv c Empty = Empty"
| "deriv c Eps = Empty"
| "deriv c (Lit a) = (if a = c then Eps else Empty)"
| "deriv c Dot = (if c = 10 then Empty else Eps)"
| "deriv c (Seq r s) =
     (if nullable r then Alt (Seq (deriv c r) s) (deriv c s) else Seq (deriv c r) s)"
| "deriv c (Alt r s) = Alt (deriv c r) (deriv c s)"
| "deriv c (Star r) = Seq (deriv c r) (Star r)"

fun matches :: "regex \<Rightarrow> ustring \<Rightarrow> bool" where
  "matches r [] = nullable r"
| "matches r (c # cs) = matches (deriv c r) cs"

text \<open>\<open>re.search\<close>: some piece of the text, starting and ending anywhere, matches.\<close>

definition re_search :: "regex \<Rightarrow> ustring \<Rightarrow> bool" where
  "re_search r s = list_ex (\<lambda>t. list_ex (matches r) (prefixes t)) (suffixes s)"

text \<open>
  \<open>re.compile(pat)\<close>, as far as the caller sees it: an exception, or the predicate
  \<open>lambda x: pat.search(x) is not None\<close> of the compiled pattern. Beyond the fragment it
  is whatever \<open>rx\<close> says.
\<close>

definition re_compile :: "re_engine \<Rightarrow> ustring \<Rightarrow> py_error + matcher" where
  "re_compile rx pat =
     (case parse pat (Frame [] [] False) [] of
        Parsed r \<Rightarrow> Inr (re_search r)
      | Malformed \<Rightarrow> Inl ReError
      | Beyond \<Rightarrow> rx pat)"

text \<open>
  The pattern is compiled once, before any row is looked at, so a bad pattern raises even
  on an empty column. Every cell is a string here, so \<open>na=False\<close> never applies.
\<close>

definition str_contains :: "re_engine \<Rightarrow> ustring list \<Rightarrow> ustring \<Rightarrow> py_error + bool list" where
  "str_contains rx col pat =
     (case re_compile rx pat of Inl e \<Rightarrow> Inl e | Inr m \<Rightarrow> Inr (map m col))"

section \<open>The two tables\<close>

text \<open>
  A row of the reference spreadsheet: the cell of the column \<open>Ingredient\<close>, the cell of the
  column \<open>CAS\<close> (read only when the sheet has that column) and the remaining columns,
  which the program carries along unread. The \<open>option\<close> around a table stands for the
  file: \<open>None\<close> when \<open>os.path.exists\<close> is false.
\<close>

record 'a ref_row =
  ingredient :: pyval
  cas :: pyval
  other :: 'a

record 'a ref_table =
  has_ingredient_col :: bool
  has_cas_col :: bool
  ref_rows :: "'a ref_row list"

text \<open>A row of the frame \<open>load_db\<close> returns: the row and the two added columns.\<close>

record 'a df_row =
  source_row :: "'a ref_row"
  norm_ingredient :: ustring
  norm_cas :: ustring

record 'a dataframe =
  has_norm_cas :: bool
  df_rows :: "'a df_row list"

text \<open>
  \<open>df["CAS"].astype(str)\<close> turns every cell into \<open>str(cell)\<close>, the missing-value marker
  included, before \<open>normalize\<close> sees it.
\<close>

definition astype_str :: "pyval \<Rightarrow> pyval" where
  "astype_str v = PyStr (py_str v)"

definition index_row :: "(nat \<Rightarrow> ustring) \<Rightarrow> bool \<Rightarrow> 'a ref_row \<Rightarrow> 'a df_row" where
  "index_row tbl with_cas r =
     (let c = (if with_cas then astype_str (cas r) else cas r)
      in \<lparr> source_row = r\<lparr>cas := c\<rparr>,
           norm_ingredient = normalize tbl (ingredient r),
           norm_cas = (if with_cas then normalize tbl c else []) \<rparr>)"

text \<open>
  \<open>load_db\<close>: no file gives \<open>None\<close>; a sheet without the ingredient column stops the
  script (\<open>st.stop()\<close>); otherwise the frame with the added columns.
\<close>

definition load_db :: "(nat \<Rightarrow> ustring) \<Rightarrow> 'a ref_table option \<Rightarrow> py_error + 'a dataframe option" where
  "load_db tbl file =
     (case file of
        None \<Rightarrow> Inr None
      | Some t \<Rightarrow>
          if \<not> has_ingredient_col t then Inl StopScript
          else Inr (Some \<lparr> has_norm_cas = has_cas_col t,
                            df_rows = map (index_row tbl (has_cas_col t)) (ref_rows t) \<rparr>))"

record alias_table =
  has_alias_col :: bool
  has_official_col :: bool
  alias_rows :: "(pyval \<times> pyval) list"

record alias_row =
  alias_text :: ustring
  official_text :: ustring
  norm_alias :: ustring
  norm_official :: ustring

definition index_alias :: "(nat \<Rightarrow> ustring) \<Rightarrow> pyval \<times> pyval \<Rightarrow> alias_row" where
  "index_alias tbl p =
     \<lparr> alias_text = py_str (fst p), official_text = py_str (snd p),
       norm_alias = normalize tbl (astype_str (fst p)),
       norm_official = normalize tbl (astype_str (snd p)) \<rparr>"

text \<open>\<open>load_alias\<close>: no file, or a sheet without both columns, gives the frame with no rows.\<close>

definition load_alias :: "(nat \<Rightarrow> ustring) \<Rightarrow> alias_table option \<Rightarrow> alias_row list" where
  "load_alias tbl file =
     (case file of
        None \<Rightarrow> []
      | Some t \<Rightarrow>
          if \<not> (has_alias_col t \<and> has_official_col t) then []
          else map (index_alias tbl) (alias_rows t))"

section \<open>search_ingredients\<close>

text \<open>Line 86, the mask of the direct name match.\<close>

definition mask_ing :: "re_engine \<Rightarrow> 'a dataframe \<Rightarrow> ustring \<Rightarrow> py_error + bool list" where
  "mask_ing rx df norm_q = str_contains rx (map norm_ingredient (df_rows df)) norm_q"

text \<open>Lines 88-91; the scalar \<open>False\<close> of the source is spread over the rows by \<open>|\<close>.\<close>

definition mask_cas :: "re_engine \<Rightarrow> 'a dataframe \<Rightarrow> ustring \<Rightarrow> py_error + bool list" where
  "mask_cas rx df norm_q =
     (if has_norm_cas df then str_contains rx (map norm_cas (df_rows df)) norm_q
      else Inr (replicate (length (df_rows df)) False))"

text \<open>Lines 93-101.\<close>

definition mask_alias :: "re_engine \<Rightarrow> 'a dataframe \<Rightarrow> alias_row list \<Rightarrow> ustring \<Rightarrow> py_error + bool list" where
  "mask_alias rx df alias_df norm_q =
     (if alias_df \<noteq> [] then
        (case str_contains rx (map norm_alias alias_df) norm_q of
           Inl e \<Rightarrow> Inl e
         | Inr hits \<Rightarrow>
             (let alias_hits = map fst (filter snd (zip alias_df hits));
                  target_official_norms = remdups (map norm_official alias_hits)
              in if length target_official_norms > 0
                 then Inr (map (\<lambda>r. norm_ingredient r \<in> set target_official_norms) (df_rows df))
                 else Inr (replicate (length (df_rows df)) False)))
      else Inr (replicate (length (df_rows df)) False))"

text \<open>
  \<open>df[final_mask]\<close>: the rows whose mask entry is true, each with its index label, in
  the order of the frame.
\<close>

definition select_rows :: "'r list \<Rightarrow> bool list \<Rightarrow> (nat \<times> 'r) list" where
  "select_rows rows final_mask = map fst (filter snd (zip (enumerate 0 rows) final_mask))"

definition search_ingredients ::
  "re_engine \<Rightarrow> (nat \<Rightarrow> ustring) \<Rightarrow> 'a dataframe \<Rightarrow> alias_row list \<Rightarrow> ustring \<Rightarrow> py_error + (nat \<times> 'a df_row) list"
where
  "search_ingredients rx tbl df alias_df query =
     (let norm_q = normalize tbl (PyStr query)
      in if norm_q = [] then Inr []
         else
           (case mask_ing rx df norm_q of
              Inl e \<Rightarrow> Inl e
            | Inr m_ing \<Rightarrow>
                (case mask_cas rx df norm_q of
                   Inl e \<Rightarrow> Inl e
                 | Inr m_cas \<Rightarrow>
                     (case mask_alias rx df alias_df norm_q of
                        Inl e \<Rightarrow> Inl e
                      | Inr m_alias \<Rightarrow>
                          Inr (select_rows (df_rows df)
                                 (map (\<lambda>(a, b, c). a \<or> b \<or> c) (zip m_ing (zip m_cas m_alias))))))))"

section \<open>Sample data\<close>

text \<open>
  A reference sheet with two rows, named \<open>abc\<close> (registry number \<open>50\<close>) and \<open>C+D\<close>
  (registry cell empty, which pandas reads as NaN), and an alias sheet with the rows
  \<open>ab \<rightarrow> ABC\<close> and \<open>axc \<rightarrow> abc\<close>.
\<close>

definition demo_table :: "unit ref_table" where
  "demo_table =
     \<lparr> has_ingredient_col = True, has_cas_col = True,
       ref_rows = [\<lparr> ingredient = PyStr [97, 98, 99], cas = PyStr [53, 48], other = () \<rparr>,
                   \<lparr> ingredient = PyStr [67, 43, 68], cas = PyNaN, other = () \<rparr>] \<rparr>"

definition demo_df :: "unit dataframe" where
  "demo_df =
     \<lparr> has_norm_cas = True,
       df_rows = map (index_row sample_tbl True) (ref_rows demo_table) \<rparr>"

definition demo_alias_table :: alias_table where
  "demo_alias_table =
     \<lparr> has_alias_col = True, has_official_col = True,
       alias_rows = [(PyStr [97, 98], PyStr [65, 66, 67]),
                     (PyStr [97, 120, 99], PyStr [97, 98, 99, 32])] \<rparr>"

definition demo_alias :: "alias_row list" where
  "demo_alias = load_alias sample_tbl (Some demo_alias_table)"

section \<open>Readings of the specification used for comparison\<close>

text \<open>
  Step 3 as the specification words it: after the whitespace is trimmed, one leading and
  one trailing quote character, straight or curly, is removed if present.
\<close>

definition is_quote :: "nat \<Rightarrow> bool" where
  "is_quote c \<longleftrightarrow> c = 34 \<or> c = 39 \<or> c = 8216 \<or> c = 8217 \<or> c = 8220 \<or> c = 8221"

definition spec_strip_step :: "ustring \<Rightarrow> ustring" where
  "spec_strip_step text =
     (let t = strip_ws text;
          t1 = (if t \<noteq> [] \<and> is_quote (hd t) then tl t else t)
      in if t1 \<noteq> [] \<and> is_quote (last t1) then butlast t1 else t1)"

text \<open>
  A canonical key is settled when a second pass of the first steps has nothing to do:
  its only whitespace is single spaces, it neither starts nor ends with a space, a double
  quote or an apostrophe, and no space stands next to a slash.
\<close>

definition settled :: "ustring \<Rightarrow> bool" where
  "settled y \<longleftrightarrow>
     list_all (\<lambda>c. \<not> is_space c \<or> c = 32) y \<and> \<not> sublist [32, 32] y \<and>
     (y = [] \<or> (hd y \<noteq> 32 \<and> hd y \<noteq> 34 \<and> hd y \<noteq> 39 \<and>
                 last y \<noteq> 32 \<and> last y \<noteq> 34 \<and> last y \<noteq> 39)) \<and>
     \<not> sublist [32, 47] y \<and> \<not> sublist [47, 32] y"

text \<open>The characters that the pattern language of \<open>re\<close> does not read as themselves.\<close>

definition is_meta :: "nat \<Rightarrow> bool" where
  "is_meta c \<longleftrightarrow>
     c = 36 \<or> c = 40 \<or> c = 41 \<or> c = 42 \<or> c = 43 \<or> c = 46 \<or> c = 63 \<or>
     c = 91 \<or> c = 92 \<or> c = 94 \<or> c = 123 \<or> c = 124"

section \<open>Evaluating the sample data\<close>

lemmas normalize_steps =
  strip_step_def strip_chars_def strip_ws_def strip_where_def is_space_def slash_step_def
  replace_def dash_step_def unidecode_def lower_def lower_char_def sample_tbl_def

lemmas search_steps =
  search_ingredients_def mask_ing_def mask_cas_def mask_alias_def str_contains_def
  re_compile_def push_atom_def close_frame_def quantify_def is_alnum_def re_search_def
  select_rows_def enumerate_eq_zip Let_def

lemma sample_tbl_ascii: "ascii_table sample_tbl"
  by (simp add: ascii_table_def sample_tbl_def)

lemma demo_load: "load_db sample_tbl (Some demo_table) = Inr (Some demo_df)"
  by (simp add: load_db_def demo_df_def demo_table_def)

lemma demo_df_has_cas: "has_norm_cas demo_df"
  by (simp add: demo_df_def)

lemma demo_df_rows:
  "df_rows demo_df =
     [\<lparr> source_row = \<lparr> ingredient = PyStr [97, 98, 99], cas = PyStr [53, 48], other = () \<rparr>,
        norm_ingredient = [97, 98, 99], norm_cas = [53, 48] \<rparr>,
      \<lparr> source_row = \<lparr> ingredient = PyStr [67, 43, 68], cas = PyStr [110, 97, 110], other = () \<rparr>,
        norm_ingredient = [99, 43, 100], norm_cas = [110, 97, 110] \<rparr>]"
  by (simp add: demo_df_def demo_table_def index_row_def astype_str_def normalize_steps)

lemma demo_alias_rows:
  "demo_alias =
     [\<lparr> alias_text = [97, 98], official_text = [65, 66, 67],
        norm_alias = [97, 98], norm_official = [97, 98, 99] \<rparr>,
      \<lparr> alias_text = [97, 120, 99], official_text = [97, 98, 99, 32],
        norm_alias = [97, 120, 99], norm_official = [97, 98, 99] \<rparr>]"
  by (simp add: demo_alias_def demo_alias_table_def load_alias_def index_alias_def
        astype_str_def normalize_steps)

section \<open>The result of a search: no duplicates, rows in table order\<close>

lemma subseq_zip_filter: "subseq (map fst (filter snd (zip xs m))) xs"
proof (induction xs arbitrary: m)
  case Nil
  then show ?case by simp
next
  case (Cons x xs)
  show ?case
  proof (cases m)
    case Nil
    then show ?thesis by simp
  next
    case (Cons b bs)
    with Cons.IH [of bs] show ?thesis by auto
  qed
qed

lemma select_rows_subseq: "subseq (select_rows rows m) (enumerate 0 rows)"
  unfolding select_rows_def by (rule subseq_zip_filter)

lemma subseq_keeps_distinct: "subseq xs ys \<Longrightarrow> distinct ys \<Longrightarrow> distinct xs"
proof (induction rule: list_emb.induct)
  case (list_emb_Nil ys)
  then show ?case by simp
next
  case (list_emb_Cons xs ys y)
  then show ?case by simp
next
  case (list_emb_Cons2 x y xs ys)
  then have "x \<notin> set ys" by simp
  moreover have "set xs \<subseteq> set ys"
    using list_emb_Cons2.hyps(2) by (auto dest: list_emb_set)
  ultimately show ?case using list_emb_Cons2 by auto
qed

lemma select_rows_distinct: "distinct (map fst (select_rows rows m))"
proof -
  have "subseq (map fst (select_rows rows m)) (map fst (enumerate 0 rows))"
    by (rule subseq_map) (rule select_rows_subseq)
  moreover have "distinct (map fst (enumerate 0 rows))"
    by simp
  ultimately show ?thesis by (rule subseq_keeps_distinct)
qed

lemma search_result_cases:
  assumes "search_ingredients rx tbl df alias_df query = Inr res"
  shows "res = [] \<or> (\<exists>m. res = select_rows (df_rows df) m)"
  using assms unfolding search_ingredients_def Let_def
  by (auto split: if_splits sum.splits)

text \<open>
  C6. Whenever a search returns a result, every row of the reference frame occurs in it
  at most once (rows are told apart by their index label), whichever of the three masks
  selected it.
\<close>

theorem search_no_duplicates:
  "search_ingredients rx tbl df alias_df query = Inr res \<Longrightarrow> distinct (map fst res)"
  using search_result_cases [of rx tbl df alias_df query res] select_rows_distinct by auto

text \<open>
  The query \<open>ab\<close> selects the first sample row by its name and through the alias \<open>ab\<close>;
  the row is returned once.
\<close>

theorem search_no_duplicates_witness:
  "\<forall>rx. \<exists>res. search_ingredients rx sample_tbl demo_df demo_alias [97, 98] = Inr res \<and>
          map fst res = [0] \<and> distinct (map fst res)"
proof (intro allI)
  fix rx
  have "map_sum id (map fst) (search_ingredients rx sample_tbl demo_df demo_alias [97, 98]) = Inr [0]"
    by (simp add: search_steps demo_df_rows demo_alias_rows demo_df_has_cas normalize_steps)
  then obtain res where r: "search_ingredients rx sample_tbl demo_df demo_alias [97, 98] = Inr res"
    and m: "map fst res = [0]"
    by (cases "search_ingredients rx sample_tbl demo_df demo_alias [97, 98]") auto
  from search_no_duplicates [OF r] r m
  show "\<exists>res. search_ingredients rx sample_tbl demo_df demo_alias [97, 98] = Inr res \<and>
          map fst res = [0] \<and> distinct (map fst res)"
    by simp
qed

text \<open>
  C8. Whenever a search returns a result, the result is a subsequence of the indexed rows
  of the reference frame: the selected rows keep the order they have in the table.
\<close>

theorem search_keeps_row_order:
  "search_ingredients rx tbl df alias_df query = Inr res \<Longrightarrow>
   subseq res (enumerate 0 (df_rows df))"
  using search_result_cases [of rx tbl df alias_df query res] select_rows_subseq by auto

text \<open>The query \<open>c\<close> occurs in both sample names; both rows come back, first row first.\<close>

theorem search_keeps_row_order_witness:
  "\<forall>rx. \<exists>res. search_ingredients rx sample_tbl demo_df demo_alias [99] = Inr res \<and>
          map fst res = [0, 1] \<and> subseq res (enumerate 0 (df_rows demo_df))"
proof (intro allI)
  fix rx
  have "map_sum id (map fst) (search_ingredients rx sample_tbl demo_df demo_alias [99]) = Inr [0, 1]"
    by (simp add: search_steps demo_df_rows demo_alias_rows demo_df_has_cas normalize_steps)
  then obtain res where r: "search_ingredients rx sample_tbl demo_df demo_alias [99] = Inr res"
    and m: "map fst res = [0, 1]"
    by (cases "search_ingredients rx sample_tbl demo_df demo_alias [99]") auto
  from search_keeps_row_order [OF r] r m
  show "\<exists>res. search_ingredients rx sample_tbl demo_df demo_alias [99] = Inr res \<and>
          map fst res = [0, 1] \<and> subseq res (enumerate 0 (df_rows demo_df))"
    by simp
qed

section \<open>normalize yields ASCII\<close>

lemma lower_char_ascii: "c < 128 \<Longrightarrow> lower_char c < 128"
  by (simp add: lower_char_def)

lemma lower_ascii: "list_all (\<lambda>c. c < 128) s \<Longrightarrow> list_all (\<lambda>c. c < 128) (lower s)"
  by (induction s) (simp_all add: lower_def lower_char_ascii)

lemma unidecode_ascii:
  assumes "ascii_table tbl"
  shows "list_all (\<lambda>c. c < 128) (unidecode tbl s)"
proof (induction s)
  case Nil
  then show ?case by (simp add: unidecode_def)
next
  case (Cons c s)
  have "list_all (\<lambda>d. d < 128) (tbl c)"
    using assms by (simp add: ascii_table_def)
  with Cons show ?case by (simp add: unidecode_def)
qed

text \<open>
  C10. \<open>normalize\<close> is defined on every value (\<open>None\<close>, NaN, strings, numbers, booleans),
  with no failing branch, and when the Unidecode tables keep their contract (every
  replacement text is ASCII) every character of its output is ASCII.
\<close>

theorem normalize_ascii:
  "ascii_table tbl \<Longrightarrow> list_all (\<lambda>c. c < 128) (normalize tbl v)"
  by (cases v) (simp_all add: lower_ascii unidecode_ascii)

text \<open>The text U+5317, left curly quote, \<open>C\<close>, i with acute accent becomes \<open>bei "ci\<close>.\<close>

theorem normalize_ascii_witness:
  "ascii_table sample_tbl \<and>
   normalize sample_tbl (PyStr [21271, 8220, 67, 237]) = [98, 101, 105, 32, 34, 99, 105] \<and>
   list_all (\<lambda>c. c < 128) (normalize sample_tbl (PyStr [21271, 8220, 67, 237])) \<and>
   normalize sample_tbl PyNone = [] \<and> list_all (\<lambda>c. c < 128) (normalize sample_tbl PyNone)"
proof -
  have "normalize sample_tbl (PyStr [21271, 8220, 67, 237]) = [98, 101, 105, 32, 34, 99, 105]"
    by (simp add: normalize_steps)
  then show ?thesis
    using normalize_ascii [OF sample_tbl_ascii, of "PyStr [21271, 8220, 67, 237]"]
      normalize_ascii [OF sample_tbl_ascii, of PyNone] sample_tbl_ascii
    by simp
qed

section \<open>Step 3: what strip removes\<close>

lemma strip_where_split:
  "\<exists>a b. s = a @ strip_where P s @ b \<and> (\<forall>x\<in>set a. P x) \<and> (\<forall>x\<in>set b. P x)"
proof -
  define d where "d = dropWhile P s"
  have s: "s = takeWhile P s @ d"
    by (simp add: d_def)
  have "rev (dropWhile P (rev d)) @ rev (takeWhile P (rev d)) =
          rev (takeWhile P (rev d) @ dropWhile P (rev d))"
    by (simp only: rev_append)
  also have "\<dots> = d"
    by (simp only: takeWhile_dropWhile_id rev_rev_ident)
  finally have d: "d = strip_where P s @ rev (takeWhile P (rev d))"
    by (simp add: strip_where_def d_def)
  have "s = takeWhile P s @ strip_where P s @ rev (takeWhile P (rev d))"
    using s d by simp
  moreover have "\<forall>x\<in>set (takeWhile P s). P x"
    by (auto dest: set_takeWhileD)
  moreover have "\<forall>x\<in>set (rev (takeWhile P (rev d))). P x"
    by (auto dest: set_takeWhileD)
  ultimately show ?thesis by blast
qed

lemma last_dropWhile_keep: "dropWhile P xs \<noteq> [] \<Longrightarrow> last (dropWhile P xs) = last xs"
  by (induction xs) (auto split: if_splits)

lemma strip_where_ends:
  assumes "strip_where P s \<noteq> []"
  shows "\<not> P (hd (strip_where P s)) \<and> \<not> P (last (strip_where P s))"
proof -
  define d where "d = dropWhile P s"
  define e where "e = dropWhile P (rev d)"
  have st: "strip_where P s = rev e"
    by (simp add: strip_where_def d_def e_def)
  with assms have ne: "e \<noteq> []" by simp
  then have dne: "d \<noteq> []" by (auto simp: e_def)
  have "\<not> P (hd e)"
    using ne unfolding e_def by (rule hd_dropWhile)
  then have l: "\<not> P (last (rev e))"
    using ne by (simp add: last_rev)
  have "last e = last (rev d)"
    using ne unfolding e_def by (rule last_dropWhile_keep)
  then have "hd (rev e) = hd d"
    using ne dne by (simp add: hd_rev last_rev)
  moreover have "\<not> P (hd d)"
    using dne unfolding d_def by (rule hd_dropWhile)
  ultimately show ?thesis using l st by simp
qed

text \<open>
  C7, as the code has it. After the whitespace is trimmed, the text loses every leading
  and trailing double quote (the pieces \<open>a\<close> and \<open>b\<close>), then every leading and trailing
  apostrophe (\<open>c\<close> and \<open>d\<close>), and nothing else: what is left starts and ends with neither,
  and a curly quote is never removed.
\<close>

theorem strip_step_takes_all_straight_quotes:
  "\<exists>a b c d. strip_ws s = a @ c @ strip_step s @ d @ b \<and>
     set a \<subseteq> {34} \<and> set b \<subseteq> {34} \<and> set c \<subseteq> {39} \<and> set d \<subseteq> {39} \<and>
     (c @ strip_step s @ d = [] \<or>
        (hd (c @ strip_step s @ d) \<noteq> 34 \<and> last (c @ strip_step s @ d) \<noteq> 34)) \<and>
     (strip_step s = [] \<or> (hd (strip_step s) \<noteq> 39 \<and> last (strip_step s) \<noteq> 39))"
proof -
  define t where "t = strip_ws s"
  define u where "u = strip_chars [34] t"
  have r: "strip_step s = strip_chars [39] u"
    by (simp add: strip_step_def u_def t_def)
  obtain a b where ab: "t = a @ u @ b" "\<forall>x\<in>set a. x \<in> set [34]" "\<forall>x\<in>set b. x \<in> set [34]"
    using strip_where_split [of t "\<lambda>c. c \<in> set [34]"] unfolding u_def strip_chars_def by blast
  obtain c d where cd: "u = c @ strip_step s @ d" "\<forall>x\<in>set c. x \<in> set [39]" "\<forall>x\<in>set d. x \<in> set [39]"
    using strip_where_split [of u "\<lambda>c. c \<in> set [39]"] unfolding r strip_chars_def by blast
  have e1: "u = [] \<or> (hd u \<noteq> 34 \<and> last u \<noteq> 34)"
    using strip_where_ends [of "\<lambda>c. c \<in> set [34]" t] unfolding u_def strip_chars_def by auto
  have e2: "strip_step s = [] \<or> (hd (strip_step s) \<noteq> 39 \<and> last (strip_step s) \<noteq> 39)"
    using strip_where_ends [of "\<lambda>c. c \<in> set [39]" u] unfolding r strip_chars_def by auto
  have "strip_ws s = a @ c @ strip_step s @ d @ b"
    using ab(1) cd(1) by (simp add: t_def)
  moreover have "set a \<subseteq> {34}" "set b \<subseteq> {34}" "set c \<subseteq> {39}" "set d \<subseteq> {39}"
    using ab(2,3) cd(2,3) by auto
  moreover have "c @ strip_step s @ d = [] \<or>
        (hd (c @ strip_step s @ d) \<noteq> 34 \<and> last (c @ strip_step s @ d) \<noteq> 34)"
    using e1 cd(1) by simp
  ultimately show ?thesis using e2 by blast
qed

theorem strip_step_takes_all_straight_quotes_witness:
  "strip_step [32, 34, 34, 39, 8220, 97, 39, 34] = [8220, 97] \<and>
   (\<exists>a b c d. strip_ws [32, 34, 34, 39, 8220, 97, 39, 34] = a @ c @ [8220, 97] @ d @ b \<and>
     set a \<subseteq> {34} \<and> set b \<subseteq> {34} \<and> set c \<subseteq> {39} \<and> set d \<subseteq> {39})"
proof -
  have e: "strip_step [32, 34, 34, 39, 8220, 97, 39, 34] = [8220, 97]"
    by (simp add: normalize_steps)
  show ?thesis
    using strip_step_takes_all_straight_quotes [of "[32, 34, 34, 39, 8220, 97, 39, 34]"]
    unfolding e by blast
qed

text \<open>
  C7 as stated fails: of two leading double quotes the code removes both where the claim
  removes one, and a text in curly quotes keeps them where the claim removes them.
\<close>

theorem strip_step_counterexample:
  "strip_step [34, 34, 97] = [97] \<and> spec_strip_step [34, 34, 97] = [34, 97] \<and>
   strip_step [8220, 97, 8221] = [8220, 97, 8221] \<and> spec_strip_step [8220, 97, 8221] = [97]"
  by (simp add: normalize_steps spec_strip_step_def is_quote_def)


section \<open>The query is read as a pattern\<close>

text \<open>
  The queries of this section lie in the modelled fragment of the pattern language, so
  the results hold whatever \<open>re\<close> does beyond it: \<open>rx\<close> is arbitrary.
\<close>

text \<open>
  C1, at a failing input. The canonical query \<open>a.c\<close> selects the row named \<open>abc\<close>, whose
  canonical name does not contain \<open>a.c\<close>; the canonical query \<open>c+d\<close> does not select the
  row whose canonical name is \<open>c+d\<close> itself. The name mask is a pattern search, not a
  search for the query's text.
\<close>

theorem name_mask_reads_query_as_pattern:
  "normalize sample_tbl (PyStr [97, 46, 99]) = [97, 46, 99] \<and>
   normalize sample_tbl (PyStr [67, 43, 68]) = [99, 43, 100] \<and>
   map norm_ingredient (df_rows demo_df) = [[97, 98, 99], [99, 43, 100]] \<and>
   mask_ing rx demo_df [97, 46, 99] = Inr [True, False] \<and>
   \<not> sublist [97, 46, 99] [97, 98, 99 :: nat] \<and>
   mask_ing rx demo_df [99, 43, 100] = Inr [False, False] \<and>
   sublist [99, 43, 100] [99, 43, 100 :: nat]"
  by (simp add: search_steps demo_df_rows normalize_steps sublist_code)

text \<open>
  C4, at a failing input. The query \<open>(\<close> is its own canonical form, it is not a
  well-formed pattern, and the search raises \<open>re.error\<close>, with or without aliases.
\<close>

theorem search_raises_on_open_parenthesis:
  "normalize sample_tbl (PyStr [40]) = [40] \<and>
   search_ingredients rx sample_tbl demo_df demo_alias [40] = Inl ReError \<and>
   search_ingredients rx sample_tbl demo_df [] [40] = Inl ReError"
  by (simp add: search_steps demo_df_rows demo_alias_rows demo_df_has_cas normalize_steps)

text \<open>
  C5, at a failing input. Neither canonical alias key, \<open>ab\<close> or \<open>axc\<close>, contains the
  canonical query \<open>a.c\<close>, yet the alias mask selects the row named \<open>abc\<close>: the alias
  \<open>axc\<close> matches the query read as a pattern.
\<close>

theorem alias_mask_reads_query_as_pattern:
  "map norm_alias demo_alias = [[97, 98], [97, 120, 99]] \<and>
   \<not> sublist [97, 46, 99] [97, 98 :: nat] \<and> \<not> sublist [97, 46, 99] [97, 120, 99 :: nat] \<and>
   mask_alias rx demo_df demo_alias [97, 46, 99] = Inr [True, False]"
  by (simp add: search_steps demo_df_rows demo_alias_rows sublist_code)

section \<open>A missing registry number\<close>

text \<open>
  C3, at a failing input. The second sample row has no registry number (NaN). Its
  canonical registry key is \<open>nan\<close>, not the empty string, and the query \<open>nan\<close> finds the
  row through the registry mask alone.
\<close>

theorem missing_registry_number_becomes_nan:
  "load_db sample_tbl (Some demo_table) = Inr (Some demo_df) \<and>
   map cas (ref_rows demo_table) = [PyStr [53, 48], PyNaN] \<and>
   map norm_cas (df_rows demo_df) = [[53, 48], [110, 97, 110]] \<and>
   mask_ing rx demo_df [110, 97, 110] = Inr [False, False] \<and>
   mask_cas rx demo_df [110, 97, 110] = Inr [False, True] \<and>
   map_sum id (map fst) (search_ingredients rx sample_tbl demo_df [] [110, 97, 110]) = Inr [1]"
proof -
  have "map cas (ref_rows demo_table) = [PyStr [53, 48], PyNaN]"
    by (simp add: demo_table_def)
  then show ?thesis
    by (simp add: demo_load search_steps demo_df_rows demo_df_has_cas normalize_steps)
qed


section \<open>A second pass of normalize\<close>

lemma normalize_output_ascii:
  "ascii_table tbl \<Longrightarrow> list_all (\<lambda>c. c < 128) (normalize tbl v)"
  by (cases v) (simp_all add: lower_ascii unidecode_ascii)

lemma lower_char_idem: "lower_char (lower_char c) = lower_char c"
  by (simp add: lower_char_def)

lemma lower_idem: "lower (lower s) = lower s"
  by (simp add: lower_def lower_char_idem)

lemma normalize_lower: "lower (normalize tbl v) = normalize tbl v"
  by (cases v) (simp_all add: lower_idem, simp add: lower_def)

lemma unidecode_id: "list_all (\<lambda>c. c < 128) s \<Longrightarrow> unidecode tbl s = s"
  by (induction s) (simp_all add: unidecode_def)

lemma replace_nonempty_id: "\<not> sublist old s \<Longrightarrow> replace_nonempty old new s = s"
proof (induction s)
  case Nil
  then show ?case by simp
next
  case (Cons c cs)
  have "\<not> prefix old (c # cs)"
    using Cons.prems by auto
  moreover have "\<not> sublist old cs"
    using Cons.prems by (auto simp: sublist_Cons_right)
  ultimately show ?case using Cons.IH by simp
qed

lemma replace_id: "old \<noteq> [] \<Longrightarrow> \<not> sublist old s \<Longrightarrow> replace old new s = s"
  by (simp add: replace_def replace_nonempty_id)

lemma replace_char_id: "ch \<notin> set s \<Longrightarrow> replace [ch] new s = s"
proof (rule replace_id)
  show "[ch] \<noteq> []" by simp
next
  assume "ch \<notin> set s"
  then show "\<not> sublist [ch] s"
    by (auto simp: sublist_def)
qed

lemma dash_step_id:
  assumes "list_all (\<lambda>c. c < 128) s"
  shows "dash_step s = s"
proof -
  have "\<And>ch. 128 \<le> ch \<Longrightarrow> ch \<notin> set s"
    using assms by (auto simp: list_all_iff)
  then have "8211 \<notin> set s" "8212 \<notin> set s" "8722 \<notin> set s"
    by simp_all
  then show ?thesis
    by (simp add: dash_step_def replace_char_id)
qed

lemma slash_step_id:
  assumes "\<not> sublist [32, 47] s" and "\<not> sublist [47, 32] s"
  shows "slash_step s = s"
proof -
  have "\<not> sublist [32, 47, 32] s"
  proof
    assume "sublist [32, 47, 32] s"
    then obtain ps ss where "s = ps @ [32, 47, 32] @ ss"
      by (auto simp: sublist_def)
    then have "s = ps @ [32, 47] @ (32 # ss)" by simp
    then have "sublist [32, 47] s" unfolding sublist_def by blast
    with assms(1) show False by simp
  qed
  then show ?thesis
    using assms by (simp add: slash_step_def replace_id)
qed

lemma strip_where_id:
  assumes "s = [] \<or> (\<not> P (hd s) \<and> \<not> P (last s))"
  shows "strip_where P s = s"
proof (cases s)
  case Nil
  then show ?thesis by (simp add: strip_where_def)
next
  case (Cons c cs)
  with assms have a: "\<not> P c" and b: "\<not> P (last s)" by auto
  have "dropWhile P s = s" using Cons a by simp
  moreover have "hd (rev s) = last s"
    using Cons by (simp add: hd_rev)
  then have "dropWhile P (rev s) = rev s"
    using b by (simp add: dropWhile_eq_self_iff)
  ultimately show ?thesis by (simp add: strip_where_def)
qed

lemma collapse_ws_id:
  "list_all (\<lambda>c. \<not> is_space c \<or> c = 32) s \<Longrightarrow> \<not> sublist [32, 32] s \<Longrightarrow> collapse_ws s = s"
proof (induction s)
  case Nil
  then show ?case by simp
next
  case (Cons c cs)
  have tl: "list_all (\<lambda>c. \<not> is_space c \<or> c = 32) cs" "\<not> sublist [32, 32] cs"
    using Cons.prems by (auto simp: sublist_Cons_right)
  then have ih: "collapse_ws cs = cs" by (rule Cons.IH)
  show ?case
  proof (cases "is_space c")
    case False
    then show ?thesis using ih by simp
  next
    case True
    then have c: "c = 32" using Cons.prems(1) by simp
    have "dropWhile is_space cs = cs"
    proof (cases cs)
      case Nil
      then show ?thesis by simp
    next
      case (Cons d ds)
      have "d \<noteq> 32"
      proof
        assume "d = 32"
        then have "prefix [32, 32] (c # cs)" using c Cons by simp
        then have "sublist [32, 32] (c # cs)" by (rule prefix_imp_sublist)
        with Cons.prems(2) show False by simp
      qed
      moreover have "\<not> is_space d \<or> d = 32" using tl(1) Cons by simp
      ultimately show ?thesis using Cons by simp
    qed
    then show ?thesis using True c ih by simp
  qed
qed

lemma strip_step_id:
  assumes "list_all (\<lambda>c. \<not> is_space c \<or> c = 32) s"
    and "s = [] \<or> (hd s \<noteq> 32 \<and> hd s \<noteq> 34 \<and> hd s \<noteq> 39 \<and>
                   last s \<noteq> 32 \<and> last s \<noteq> 34 \<and> last s \<noteq> 39)"
  shows "strip_step s = s"
proof (cases "s = []")
  case True
  then show ?thesis by (simp add: strip_step_def strip_chars_def strip_ws_def strip_where_def)
next
  case False
  then have "hd s \<in> set s" "last s \<in> set s" by simp_all
  then have "\<not> is_space (hd s) \<or> hd s = 32" "\<not> is_space (last s) \<or> last s = 32"
    using assms(1) by (auto simp: list_all_iff)
  then have w: "\<not> is_space (hd s) \<and> \<not> is_space (last s)"
    using assms(2) False by auto
  have 1: "strip_ws s = s"
    unfolding strip_ws_def using w by (intro strip_where_id) simp
  have 2: "strip_chars [34] s = s"
    unfolding strip_chars_def using assms(2) False by (intro strip_where_id) simp
  have 3: "strip_chars [39] s = s"
    unfolding strip_chars_def using assms(2) False by (intro strip_where_id) simp
  show ?thesis by (simp add: strip_step_def 1 2 3)
qed


text \<open>
  C2, as the code has it. A second pass of \<open>normalize\<close> changes nothing when the first
  result is settled: no whitespace other than single spaces, no space, double quote or
  apostrophe at either end, no space next to a slash. (The Unidecode tables are assumed
  to keep their ASCII contract.)
\<close>

theorem normalize_idempotent_on_settled_keys:
  assumes "ascii_table tbl" and "settled (normalize tbl v)"
  shows "normalize tbl (PyStr (normalize tbl v)) = normalize tbl v"
proof -
  define y where "y = normalize tbl v"
  have a: "list_all (\<lambda>c. c < 128) y"
    unfolding y_def using assms(1) by (rule normalize_output_ascii)
  have s: "list_all (\<lambda>c. \<not> is_space c \<or> c = 32) y" "\<not> sublist [32, 32] y"
    "y = [] \<or> (hd y \<noteq> 32 \<and> hd y \<noteq> 34 \<and> hd y \<noteq> 39 \<and>
               last y \<noteq> 32 \<and> last y \<noteq> 34 \<and> last y \<noteq> 39)"
    "\<not> sublist [32, 47] y" "\<not> sublist [47, 32] y"
    using assms(2) unfolding y_def settled_def by simp_all
  have 1: "collapse_ws y = y" using s(1,2) by (rule collapse_ws_id)
  have 2: "strip_step y = y" using s(1,3) by (rule strip_step_id)
  have 3: "slash_step y = y" using s(4,5) by (rule slash_step_id)
  have 4: "dash_step y = y" using a by (rule dash_step_id)
  have 5: "unidecode tbl y = y" using a by (rule unidecode_id)
  have 6: "lower y = y" unfolding y_def by (rule normalize_lower)
  have "normalize tbl (PyStr y) = y"
    by (simp add: 1 2 3 4 5 6)
  then show ?thesis unfolding y_def .
qed

text \<open>
  The text made of a space, \<open>C\<close>, i with acute accent, \<open> / B\<close>, an en dash, \<open>C\<close>,
  a tab, a space and \<open>d\<close> becomes \<open>ci/b-c d\<close>, which is settled and is its own
  canonical form.
\<close>

theorem normalize_idempotent_on_settled_keys_witness:
  "ascii_table sample_tbl \<and>
   normalize sample_tbl (PyStr [32, 67, 237, 32, 47, 32, 66, 8211, 67, 9, 32, 100]) =
     [99, 105, 47, 98, 45, 99, 32, 100] \<and>
   settled [99, 105, 47, 98, 45, 99, 32, 100] \<and>
   normalize sample_tbl (PyStr [99, 105, 47, 98, 45, 99, 32, 100]) =
     [99, 105, 47, 98, 45, 99, 32, 100]"
proof -
  have e: "normalize sample_tbl (PyStr [32, 67, 237, 32, 47, 32, 66, 8211, 67, 9, 32, 100]) =
     [99, 105, 47, 98, 45, 99, 32, 100]"
    by (simp add: normalize_steps)
  have s: "settled [99, 105, 47, 98, 45, 99, 32, 100]"
    by (simp add: settled_def is_space_def sublist_code)
  show ?thesis
    using normalize_idempotent_on_settled_keys
      [OF sample_tbl_ascii, of "PyStr [32, 67, 237, 32, 47, 32, 66, 8211, 67, 9, 32, 100]"]
      sample_tbl_ascii s
    unfolding e by simp
qed

text \<open>
  C2 as stated fails. A double-quoted text inside apostrophes loses the apostrophes in the
  first pass and the double quotes in the second; the Chinese text U+5317 U+4EB0 becomes
  \<open>bei jing \<close> with a trailing space, which the second pass trims.
\<close>

theorem normalize_not_idempotent:
  "normalize sample_tbl (PyStr (normalize sample_tbl (PyStr [39, 34, 97, 34, 39]))) \<noteq>
     normalize sample_tbl (PyStr [39, 34, 97, 34, 39]) \<and>
   normalize sample_tbl (PyStr (normalize sample_tbl (PyStr [21271, 20144]))) \<noteq>
     normalize sample_tbl (PyStr [21271, 20144])"
proof -
  have "normalize sample_tbl (PyStr [39, 34, 97, 34, 39]) = [34, 97, 34]"
    by (simp add: normalize_steps)
  moreover have "normalize sample_tbl (PyStr [34, 97, 34]) = [97]"
    by (simp add: normalize_steps)
  moreover have "normalize sample_tbl (PyStr [21271, 20144]) =
      [98, 101, 105, 32, 106, 105, 110, 103, 32]"
    by (simp add: normalize_steps)
  moreover have "normalize sample_tbl (PyStr [98, 101, 105, 32, 106, 105, 110, 103, 32]) =
      [98, 101, 105, 32, 106, 105, 110, 103]"
    by (simp add: normalize_steps)
  ultimately show ?thesis by simp
qed

section \<open>Queries without pattern characters\<close>

text \<open>
  A query whose canonical form has none of the characters \<open>$ ( ) * + . ? [ \ ^ { |\<close> is
  compiled to the sequence of its own characters, and searching for it is searching for
  a contiguous occurrence of it.
\<close>

lemma parse_plain:
  "\<not> list_ex is_meta w \<Longrightarrow>
   parse w f [] = Parsed (alt_of (alts f @ [seq_of (cur f @ map Lit w)]))"
proof (induction w arbitrary: f)
  case Nil
  then show ?case by (simp add: close_frame_def)
next
  case (Cons c cs)
  then have c: "\<not> is_meta c" and cs: "\<not> list_ex is_meta cs" by simp_all
  from c have "parse (c # cs) f [] = parse cs (push_atom f (Lit c)) []"
    by (simp add: is_meta_def)
  also have "\<dots> = Parsed (alt_of (alts (push_atom f (Lit c)) @
        [seq_of (cur (push_atom f (Lit c)) @ map Lit cs)]))"
    using cs by (rule Cons.IH)
  finally show ?case by (simp add: push_atom_def)
qed

lemma re_compile_plain:
  "\<not> list_ex is_meta w \<Longrightarrow> re_compile rx w = Inr (re_search (seq_of (map Lit w)))"
  by (simp add: re_compile_def parse_plain)

lemma matches_Empty: "\<not> matches Empty s"
  by (induction s) simp_all

lemma matches_Seq_Empty: "\<not> matches (Seq Empty r) s"
  by (induction s) simp_all

lemma matches_Alt: "matches (Alt a b) s \<longleftrightarrow> matches a s \<or> matches b s"
  by (induction s arbitrary: a b) simp_all

lemma matches_Seq_Eps: "matches (Seq Eps r) s \<longleftrightarrow> matches r s"
  by (cases s) (simp_all add: matches_Alt matches_Seq_Empty)

lemma matches_Eps: "matches Eps s \<longleftrightarrow> s = []"
  by (cases s) (simp_all add: matches_Empty)

lemma matches_lits: "matches (seq_of (map Lit w)) s \<longleftrightarrow> s = w"
proof (induction w arbitrary: s)
  case Nil
  then show ?case by (simp add: matches_Eps)
next
  case (Cons a w)
  show ?case
  proof (cases s)
    case Nil
    then show ?thesis by simp
  next
    case (Cons c cs)
    then show ?thesis
      using Cons.IH [of cs] by (auto simp: matches_Seq_Eps matches_Seq_Empty)
  qed
qed

lemma re_search_lits: "re_search (seq_of (map Lit w)) s \<longleftrightarrow> sublist w s"
  by (auto simp: re_search_def list_ex_iff matches_lits sublist_altdef')

lemma str_contains_plain:
  "\<not> list_ex is_meta w \<Longrightarrow> str_contains rx col w = Inr (map (sublist w) col)"
  by (simp add: str_contains_def re_compile_plain re_search_lits)

lemma filter_by_own_mask: "map fst (filter snd (zip xs (map Q xs))) = filter Q xs"
  by (induction xs) simp_all

lemma select_rows_by_pred:
  "select_rows rows (map P rows) = filter (\<lambda>(i, r). P r) (enumerate 0 rows)"
proof -
  have "map P rows = map (\<lambda>(i, r). P r) (enumerate 0 rows)"
    by (simp add: enumerate_eq_zip map_snd_zip case_prod_unfold flip: map_map [unfolded comp_def])
  then show ?thesis
    unfolding select_rows_def by (simp only: filter_by_own_mask)
qed


lemma mask_ing_plain:
  "\<not> list_ex is_meta nq \<Longrightarrow>
   mask_ing rx df nq = Inr (map (\<lambda>row. sublist nq (norm_ingredient row)) (df_rows df))"
  by (simp add: mask_ing_def str_contains_plain comp_def)

lemma mask_alias_plain:
  fixes df :: "'a dataframe"
  assumes "\<not> list_ex is_meta nq"
  shows "mask_alias rx df alias_df nq =
     Inr (map (\<lambda>row. \<exists>a \<in> set alias_df. sublist nq (norm_alias a) \<and>
                       norm_official a = norm_ingredient row) (df_rows df))"
proof -
  define hits where "hits = filter (\<lambda>a. sublist nq (norm_alias a)) alias_df"
  have sc: "str_contains rx (map norm_alias alias_df) nq =
      Inr (map (\<lambda>a. sublist nq (norm_alias a)) alias_df)"
    using assms by (simp add: str_contains_plain comp_def)
  have h: "map fst (filter snd (zip alias_df (map (\<lambda>a. sublist nq (norm_alias a)) alias_df))) = hits"
    unfolding hits_def by (rule filter_by_own_mask)
  have e: "mask_alias rx df alias_df nq =
     (if alias_df \<noteq> [] then
        (if length (remdups (map norm_official hits)) > 0
         then Inr (map (\<lambda>r. norm_ingredient r \<in> set (remdups (map norm_official hits))) (df_rows df))
         else Inr (replicate (length (df_rows df)) False))
      else Inr (replicate (length (df_rows df)) False))"
    by (simp only: mask_alias_def sc sum.case Let_def h)
  have m: "(key \<in> set (remdups (map norm_official hits))) \<longleftrightarrow>
      (\<exists>a \<in> set alias_df. sublist nq (norm_alias a) \<and> norm_official a = key)" for key
    by (auto simp: hits_def)
  show ?thesis
  proof (cases "hits = []")
    case True
    then have "\<not> (\<exists>a \<in> set alias_df. sublist nq (norm_alias a))"
      by (auto simp: hits_def filter_empty_conv)
    then have "(\<lambda>row :: 'a df_row. \<exists>a \<in> set alias_df. sublist nq (norm_alias a) \<and>
                       norm_official a = norm_ingredient row) = (\<lambda>row. False)"
      by auto
    then show ?thesis
      using True by (simp add: e map_replicate_const)
  next
    case False
    then have "alias_df \<noteq> []" by (auto simp: hits_def)
    then show ?thesis
      using False by (simp only: e m) simp
  qed
qed

section \<open>Searching without aliases\<close>

lemma search_without_aliases:
  fixes df :: "'a dataframe"
  assumes nq: "normalize tbl (PyStr query) = nq"
  shows "search_ingredients rx tbl df [] query =
     (if nq = [] then Inr []
      else (case re_compile rx nq of
              Inl e \<Rightarrow> Inl e
            | Inr m \<Rightarrow>
                Inr (filter (\<lambda>(i, row). m (norm_ingredient row) \<or>
                               (has_norm_cas df \<and> m (norm_cas row)))
                       (enumerate 0 (df_rows df)))))"
proof -
  have s: "search_ingredients rx tbl df [] query =
     (if nq = [] then Inr []
      else (case mask_ing rx df nq of
              Inl e \<Rightarrow> Inl e
            | Inr m_ing \<Rightarrow>
                (case mask_cas rx df nq of
                   Inl e \<Rightarrow> Inl e
                 | Inr m_cas \<Rightarrow>
                     (case mask_alias rx df [] nq of
                        Inl e \<Rightarrow> Inl e
                      | Inr m_alias \<Rightarrow>
                          Inr (select_rows (df_rows df)
                                 (map (\<lambda>(a, b, c). a \<or> b \<or> c) (zip m_ing (zip m_cas m_alias))))))))"
    unfolding search_ingredients_def Let_def nq ..
  show ?thesis
  proof (cases "nq = []")
    case True
    then show ?thesis by (simp add: s)
  next
    case False
    show ?thesis
    proof (cases "re_compile rx nq")
      case (Inl e)
      with False show ?thesis
        by (simp add: s mask_ing_def str_contains_def)
    next
      case (Inr m)
      define P :: "'a df_row \<Rightarrow> bool" where "P = (\<lambda>row. m (norm_ingredient row) \<or>
          (has_norm_cas df \<and> m (norm_cas row)))"
      have mi: "mask_ing rx df nq = Inr (map (\<lambda>row. m (norm_ingredient row)) (df_rows df))"
        by (simp add: mask_ing_def str_contains_def Inr comp_def)
      have c: "mask_cas rx df nq =
          Inr (map (\<lambda>row. has_norm_cas df \<and> m (norm_cas row)) (df_rows df))"
        by (simp add: mask_cas_def str_contains_def Inr comp_def map_replicate_const)
      have a: "mask_alias rx df [] nq = Inr (map (\<lambda>row. False) (df_rows df))"
        by (simp add: mask_alias_def map_replicate_const)
      have z: "map (\<lambda>(a, b, c). a \<or> b \<or> c)
            (zip (map (\<lambda>row. m (norm_ingredient row)) rows)
               (zip (map (\<lambda>row. has_norm_cas df \<and> m (norm_cas row)) rows)
                  (map (\<lambda>row. False) rows))) = map P rows" for rows
        by (induction rows) (simp_all add: P_def)
      have "search_ingredients rx tbl df [] query = Inr (select_rows (df_rows df) (map P (df_rows df)))"
        using False by (simp add: s mi c a z)
      then show ?thesis
        using False Inr by (simp add: select_rows_by_pred P_def)
    qed
  qed
qed

text \<open>
  What holds of a search when the alias file is absent, or the sheet lacks the alias or
  the official column: \<open>load_alias\<close> returns the frame with no rows, and the search is the
  name mask and the registry mask alone. For a query without pattern characters the
  result is the rows whose canonical name or registry key contains the canonical query.
\<close>

lemma search_with_empty_alias_frame:
  assumes "file = None \<or> (\<exists>t. file = Some t \<and> \<not> (has_alias_col t \<and> has_official_col t))"
    and "normalize tbl (PyStr query) = norm_q"
  shows "load_alias tbl file = [] \<and>
     search_ingredients rx tbl df (load_alias tbl file) query =
       (if norm_q = [] then Inr []
        else (case re_compile rx norm_q of
                Inl e \<Rightarrow> Inl e
              | Inr m \<Rightarrow>
                  Inr (filter (\<lambda>(i, row). m (norm_ingredient row) \<or>
                                 (has_norm_cas df \<and> m (norm_cas row)))
                         (enumerate 0 (df_rows df))))) \<and>
     (norm_q \<noteq> [] \<and> \<not> list_ex is_meta norm_q \<longrightarrow>
        search_ingredients rx tbl df (load_alias tbl file) query =
          Inr (filter (\<lambda>(i, row). sublist norm_q (norm_ingredient row) \<or>
                         (has_norm_cas df \<and> sublist norm_q (norm_cas row)))
                 (enumerate 0 (df_rows df))))"
proof -
  have e: "load_alias tbl file = []"
    using assms(1) by (auto simp: load_alias_def)
  show ?thesis
    unfolding e search_without_aliases [OF assms(2)]
    by (simp add: re_compile_plain re_search_lits)
qed

text \<open>
  C9, at a failing input. With no alias file \<open>load_alias\<close> returns the empty frame, as
  claimed. But the search on the sample frame then returns nothing for the query \<open>C+D\<close>,
  although the second row is named \<open>C+D\<close> and its canonical name contains the canonical
  query: a correct direct-name match is not returned. The query \<open>(\<close> returns no result
  at all, it raises. The name mask reads the query as a pattern, with or without aliases.
\<close>

theorem search_without_alias_file_misses_name_match:
  "load_alias sample_tbl None = [] \<and>
   normalize sample_tbl (PyStr [67, 43, 68]) = [99, 43, 100] \<and>
   map norm_ingredient (df_rows demo_df) = [[97, 98, 99], [99, 43, 100]] \<and>
   sublist [99, 43, 100] [99, 43, 100 :: nat] \<and>
   search_ingredients rx sample_tbl demo_df (load_alias sample_tbl None) [67, 43, 68] = Inr [] \<and>
   search_ingredients rx sample_tbl demo_df (load_alias sample_tbl None) [40] = Inl ReError"
proof -
  have "load_alias sample_tbl None = []"
    by (simp add: load_alias_def)
  then show ?thesis
    by (simp add: search_steps demo_df_rows demo_df_has_cas normalize_steps sublist_code)
qed

section \<open>A query beyond the modelled patterns\<close>

text \<open>
  The query \<open>a[b]c\<close> uses a character class. Python compiles it and finds the texts that
  contain \<open>abc\<close>; with that behaviour of \<open>re\<close> the search returns the first sample row,
  once.
\<close>

lemma search_with_character_class:
  assumes "rx [97, 91, 98, 93, 99] = Inr (sublist [97, 98, 99])"
  shows "map_sum id (map fst)
           (search_ingredients rx sample_tbl demo_df demo_alias [97, 91, 98, 93, 99]) = Inr [0]"
  using assms
  by (simp add: search_steps demo_df_rows demo_alias_rows demo_df_has_cas normalize_steps
        sublist_code)

end
